theory Spec2Isabelle
  imports Main "HOL-Library.Sublist" "HOL-Library.Word"
begin

section \<open>JavaScript strings\<close>

text \<open>
  A JavaScript string is a sequence of UTF-16 code units; \<open>length\<close> counts code units.
  The string operations below are the ones the composer and the segmentation parser call:
  \<open>indexOf\<close> (with \<open>None\<close> for the result \<open>-1\<close>), \<open>includes\<close>, \<open>substring\<close> and
  \<open>split\<close> with a string separator.
\<close>

type_synonym code_unit = "16 word"
type_synonym jsstring = "code_unit list"

definition utf16 :: "string \<Rightarrow> jsstring" where
  "utf16 cs = map of_char cs"

definition newline :: code_unit where
  "newline = 0x0A"

fun indexOf :: "'a list \<Rightarrow> 'a list \<Rightarrow> nat option" where
  "indexOf [] m = (if m = [] then Some 0 else None)"
| "indexOf (c # s) m =
     (if prefix m (c # s) then Some 0 else map_option Suc (indexOf s m))"

definition includes_str :: "'a list \<Rightarrow> 'a list \<Rightarrow> bool" where
  "includes_str s m = (indexOf s m \<noteq> None)"

definition startsWith :: "'a list \<Rightarrow> 'a list \<Rightarrow> bool" where
  "startsWith s m = prefix m s"

text \<open>\<open>s.substring(a, b)\<close>: both indices are clamped to the length and swapped when \<open>a > b\<close>.\<close>

definition substring :: "'a list \<Rightarrow> nat \<Rightarrow> nat \<Rightarrow> 'a list" where
  "substring s a b =
     (let a' = min a (length s); b' = min b (length s)
      in take (max a' b' - min a' b') (drop (min a' b') s))"

text \<open>\<open>s.substring(a)\<close>: to the end of the string.\<close>

definition substring_from :: "'a list \<Rightarrow> nat \<Rightarrow> 'a list" where
  "substring_from s a = substring s a (length s)"

lemma indexOf_bound: "indexOf s m = Some i \<Longrightarrow> i + length m \<le> length s"
proof (induction s arbitrary: i)
  case Nil
  then show ?case by (simp split: if_splits)
next
  case (Cons c s)
  show ?case
  proof (cases "prefix m (c # s)")
    case True
    then have "length m \<le> length (c # s)" by (rule prefix_length_le)
    with True Cons.prems show ?thesis by simp
  next
    case False
    with Cons.prems obtain j where "indexOf s m = Some j" "i = Suc j" by auto
    with Cons.IH show ?thesis by fastforce
  qed
qed

text \<open>
  \<open>s.split(sep)\<close>: an empty separator splits into single code units; otherwise the
  string is cut at the leftmost occurrences of the separator, searched from left to right
  without overlap, and a string without the separator is returned whole.
\<close>

function split_str :: "'a list \<Rightarrow> 'a list \<Rightarrow> 'a list list" where
  "split_str s sep =
     (if sep = [] then map (\<lambda>c. [c]) s
      else case indexOf s sep of
             None \<Rightarrow> [s]
           | Some i \<Rightarrow> take i s # split_str (drop (i + length sep) s) sep)"
  by pat_completeness auto
termination
proof (relation "measure (\<lambda>(s, sep). length s)")
  show "wf (measure (\<lambda>(s, sep). length s))" by simp
next
  fix s sep :: "'a list" and i
  assume sep: "sep \<noteq> []" and "indexOf s sep = Some i"
  then have "i + length sep \<le> length s"
    by (rule_tac indexOf_bound)
  with sep show "((drop (i + length sep) s, sep), (s, sep)) \<in> measure (\<lambda>(s, sep). length s)"
    by (cases sep) auto
qed

declare split_str.simps [simp del]

section \<open>Files and configuration\<close>

text \<open>
  A \<open>File\<close> of the browser, with what a \<open>FileReader\<close> delivers for it:
  \<open>readAsDataURL\<close> fires \<open>onload\<close> with a string, or never fires it when the read
  fails (\<open>None\<close>); \<open>readAsText\<close> ends with the text, or with \<open>null\<close> when the read
  fails (\<open>None\<close>).
\<close>

record jsfile =
  file_name :: jsstring
  file_type :: jsstring
  dataURL :: "jsstring option"
  text_content :: "jsstring option"

text \<open>
  The constants \<open>SNIPPET_MARKERS\<close>, \<open>MAX_ROWS\<close> and \<open>MAX_IMAGE_ATTACHMENTS_PER_MESSAGE\<close>
  are imported from \<open>constants/appConstants\<close> and \<open>preprocessImage\<close> from
  \<open>utils/ImageUtils\<close>; they are parameters of the model. \<open>preprocessImage\<close> hands
  its callback the encoded data and the processed file.
\<close>

record config =
  snippet_begin :: jsstring
  snippet_end :: jsstring
  MAX_ROWS :: nat
  MAX_IMAGE_ATTACHMENTS_PER_MESSAGE :: nat
  preprocessImage :: "jsfile \<Rightarrow> jsstring \<times> jsfile"

section \<open>UserContentBlock: the snippet segmentation parser\<close>

text \<open>
  The React keys \<open>text-i\<close>, \<open>foldable-i\<close>, \<open>text-after-i\<close> and \<open>text-start-i\<close>, and the
  three kinds of element \<open>processText\<close> pushes: the empty fragment and the markdown block
  of \<open>renderMarkdownSection\<close> (prose), and the foldable section (a snippet).
\<close>

datatype key = Text nat | Foldable nat | TextAfter nat | TextStart nat

datatype element =
    Fragment key
  | MarkdownSection key jsstring
  | FoldableTextSection key jsstring

definition renderMarkdownSection :: "jsstring \<Rightarrow> key \<Rightarrow> element" where
  "renderMarkdownSection content k =
     (if content = [] then Fragment k else MarkdownSection k content)"

text \<open>The body of the \<open>forEach\<close> callback: the elements pushed for one section.\<close>

definition processSection :: "config \<Rightarrow> nat \<Rightarrow> jsstring \<Rightarrow> element list" where
  "processSection cfg index section =
     (if index = 0 \<and> \<not> includes_str section (snippet_end cfg)
      then [renderMarkdownSection section (Text index)]
      else case indexOf section (snippet_end cfg) of
             Some endSnippetIndex \<Rightarrow>
               (let snippet = substring section 0 endSnippetIndex;
                    remainingText =
                      substring_from section (endSnippetIndex + length (snippet_end cfg))
                in FoldableTextSection (Foldable index) snippet #
                   (if remainingText \<noteq> []
                    then [renderMarkdownSection remainingText (TextAfter index)]
                    else []))
           | None \<Rightarrow> [renderMarkdownSection section (TextStart index)])"

definition processText :: "config \<Rightarrow> jsstring \<Rightarrow> element list" where
  "processText cfg inputText =
     concat (map (\<lambda>(index, section). processSection cfg index section)
                 (enumerate 0 (split_str inputText (snippet_begin cfg))))"

text \<open>The contents of the snippet segments of an element list, in order.\<close>

fun snippets :: "element list \<Rightarrow> jsstring list" where
  "snippets [] = []"
| "snippets (FoldableTextSection k c # es) = c # snippets es"
| "snippets (e # es) = snippets es"

section \<open>MessageBox: the composer\<close>

subsection \<open>State\<close>

record FileData =
  data :: jsstring
  mime_type :: jsstring
  source :: string
  filename :: jsstring

record FileDataRef =
  ref_id :: nat
  fileData :: FileData

text \<open>The textarea element behind \<open>textAreaRef\<close>, and the value of \<open>selectionRef\<close>.\<close>

record textarea =
  ta_value :: jsstring
  selectionStart :: nat
  selectionEnd :: nat

record selection =
  sel_start :: nat
  sel_end :: nat

text \<open>The callbacks handed to \<open>setTimeout(..., 0)\<close>: the one of \<open>focusComposer\<close>, and the
  one that moves the cursor of the textarea to a position computed beforehand.\<close>

datatype task = FocusComposer | SetCursor nat

text \<open>
  The refs and state variables of the component. \<open>loading\<close> and \<open>allowImageAttachment\<close>
  are props, owned by the host (\<open>setLoading\<close> writes the first). The send callback
  \<open>callApp\<close> and \<open>ChatService.cancelStream\<close> are external: the model records their
  invocations. \<open>timeouts\<close> is the queue of pending zero-delay callbacks. Resizing and
  scrolling (\<open>debouncedResize\<close>, \<open>handleAutoResize\<close>) read the layout only and are left out.
  A handler runs on the state of the latest render, so the state variables it reads are
  the fields of the state it is applied to.
\<close>

record composer =
  textValue :: jsstring
  isTextEmpty :: bool
  textAreaRef :: "textarea option"
  selectionRef :: selection
  fileDataRef :: "FileDataRef list"
  isExpanded :: bool
  draftText :: jsstring
  loading :: bool
  allowImageAttachment :: string
  callApp_calls :: "(jsstring \<times> FileDataRef list) list"
  cancelStream_calls :: nat
  timeouts :: "task list"

subsection \<open>The textarea element\<close>

text \<open>
  The value a textarea hands out, and that \<open>selectionStart\<close> and \<open>selectionEnd\<close> index,
  has its newlines normalised: every pair of a carriage return and a line feed, and then
  every remaining carriage return, is a single line feed. \<open>ta_value\<close> is that value.
  Assigning \<open>value\<close> stores the normalised string and, when that differs from the old
  value, moves the cursor to the end of the text.

  Setting the selection range clamps both ends to the length of the value, and an end
  not beyond the start collapses the selection at the end. Assigning \<open>selectionStart\<close>
  keeps the old end unless it is smaller; assigning \<open>selectionEnd\<close> keeps the start.
\<close>

definition carriage_return :: code_unit where
  "carriage_return = 0x0D"

fun normalizeNewlines :: "jsstring \<Rightarrow> jsstring" where
  "normalizeNewlines [] = []"
| "normalizeNewlines [c] = [if c = carriage_return then newline else c]"
| "normalizeNewlines (c # d # cs) =
     (if c = carriage_return \<and> d = newline then newline # normalizeNewlines cs
      else if c = carriage_return then newline # normalizeNewlines (d # cs)
      else c # normalizeNewlines (d # cs))"

definition setSelectionRange :: "nat \<Rightarrow> nat \<Rightarrow> textarea \<Rightarrow> textarea" where
  "setSelectionRange st en ta =
     (let len = length (ta_value ta); s' = min st len; e' = min en len
      in if e' \<le> s' then ta\<lparr>selectionStart := e', selectionEnd := e'\<rparr>
         else ta\<lparr>selectionStart := s', selectionEnd := e'\<rparr>)"

definition set_selectionStart :: "nat \<Rightarrow> textarea \<Rightarrow> textarea" where
  "set_selectionStart n ta = setSelectionRange n (max (selectionEnd ta) n) ta"

definition set_selectionEnd :: "nat \<Rightarrow> textarea \<Rightarrow> textarea" where
  "set_selectionEnd n ta = setSelectionRange (selectionStart ta) n ta"

definition set_value :: "jsstring \<Rightarrow> textarea \<Rightarrow> textarea" where
  "set_value v ta =
     (let v' = normalizeNewlines v
      in if v' = ta_value ta then ta
         else ta\<lparr>ta_value := v', selectionStart := length v', selectionEnd := length v'\<rparr>)"

text \<open>\<open>n || 0\<close> on a number.\<close>

definition orZero :: "nat \<Rightarrow> nat" where
  "orZero n = (if n = 0 then 0 else n)"

text \<open>\<open>String.prototype.trim\<close>: white space and line terminators go from both ends.\<close>

definition isWhiteSpace :: "code_unit \<Rightarrow> bool" where
  "isWhiteSpace c \<longleftrightarrow>
     c \<in> {0x09, 0x0A, 0x0B, 0x0C, 0x0D, 0x20, 0xA0, 0x1680, 0x2028, 0x2029,
          0x202F, 0x205F, 0x3000, 0xFEFF} \<or> (0x2000 \<le> c \<and> c \<le> 0x200A)"

definition trim :: "jsstring \<Rightarrow> jsstring" where
  "trim s = rev (dropWhile isWhiteSpace (rev (dropWhile isWhiteSpace s)))"

subsection \<open>Operations\<close>

definition focusComposer :: "composer \<Rightarrow> composer" where
  "focusComposer s = s\<lparr>timeouts := timeouts s @ [FocusComposer]\<rparr>"

definition setTextValue :: "jsstring \<Rightarrow> composer \<Rightarrow> composer" where
  "setTextValue v s = s\<lparr>textValue := v\<rparr>"

definition setTextAreaValue :: "jsstring \<Rightarrow> composer \<Rightarrow> composer" where
  "setTextAreaValue v s =
     (let s1 = s\<lparr>draftText := v\<rparr>;
          s2 = setTextValue v s1;
          s3 = s2\<lparr>isTextEmpty := (trim v = [])\<rparr>;
          s4 = s3\<lparr>textAreaRef := map_option (set_value v) (textAreaRef s3)\<rparr>
      in s4\<lparr>selectionRef := \<lparr>sel_start = length v, sel_end = length v\<rparr>\<rparr>)"


definition insertTextAtCursorPosition :: "jsstring \<Rightarrow> composer \<Rightarrow> composer" where
  "insertTextAtCursorPosition textToInsert s =
     (case textAreaRef s of
        None \<Rightarrow> s
      | Some textArea \<Rightarrow>
          (let startPos = orZero (selectionStart textArea);
               endPos = orZero (selectionEnd textArea);
               text = ta_value textArea;
               newTextValue =
                 substring text 0 startPos @ textToInsert @ substring_from text endPos;
               s1 = setTextValue newTextValue s;
               s2 = setTextAreaValue newTextValue s1;
               s3 = s2\<lparr>selectionRef :=
                      \<lparr>sel_start = startPos + length textToInsert,
                       sel_end = startPos + length textToInsert\<rparr>\<rparr>;
               newCursorPos = startPos + length textToInsert
           in s3\<lparr>timeouts := timeouts s3 @ [SetCursor newCursorPos]\<rparr>))"

text \<open>Running the pending zero-delay callbacks, oldest first.\<close>

fun runTask :: "task \<Rightarrow> composer \<Rightarrow> composer" where
  "runTask FocusComposer s =
     (case textAreaRef s of
        None \<Rightarrow> s
      | Some ta \<Rightarrow>
          s\<lparr>textAreaRef :=
              Some (set_selectionEnd (sel_end (selectionRef s))
                     (set_selectionStart (sel_start (selectionRef s)) ta))\<rparr>)"
| "runTask (SetCursor newCursorPos) s =
     (case textAreaRef s of
        None \<Rightarrow> s
      | Some ta \<Rightarrow>
          s\<lparr>textAreaRef :=
              Some (set_selectionEnd newCursorPos (set_selectionStart newCursorPos ta))\<rparr>)"

definition runTimeouts :: "composer \<Rightarrow> composer" where
  "runTimeouts s = foldl (\<lambda>s' t. runTask t s') (s\<lparr>timeouts := []\<rparr>) (timeouts s)"

subsection \<open>Paste\<close>

record item =
  item_type :: jsstring
  getAsFile :: "jsfile option"

record dataTransfer =
  items :: "item list"
  text_plain :: jsstring

text \<open>A paste event; \<open>text_plain\<close> is what \<open>getData('text/plain')\<close> returns.\<close>

record clipboardEvent =
  clipboardData :: "dataTransfer option"

datatype error = TypeError

text \<open>The template literal of the oversized paste.\<close>

definition modifiedText :: "config \<Rightarrow> jsstring \<Rightarrow> jsstring" where
  "modifiedText cfg pastedText =
     snippet_begin cfg @ [newline] @ pastedText @ [newline] @ snippet_end cfg @ [newline]"

text \<open>
  One round of the loop over the clipboard items, on the state and the event's
  \<open>defaultPrevented\<close> flag. The file is read and preprocessed asynchronously; the model
  applies the state update of each completed image in the order of the items.
\<close>

definition pasteItem :: "config \<Rightarrow> item \<Rightarrow> composer \<times> bool \<Rightarrow> composer \<times> bool" where
  "pasteItem cfg it acc =
     (case acc of (s, prevented) \<Rightarrow>
        if indexOf (item_type it) (utf16 ''image'') = Some 0 \<and> allowImageAttachment s \<noteq> ''no''
        then (case getAsFile it of
                None \<Rightarrow> (s, True)
              | Some f \<Rightarrow>
                  (case dataURL f of
                     None \<Rightarrow> (s, True)
                   | Some _ \<Rightarrow>
                       (case preprocessImage cfg f of (base64Data, processedFile) \<Rightarrow>
                          (s\<lparr>fileDataRef := fileDataRef s @
                               [\<lparr>ref_id = 0,
                                 fileData = \<lparr>data = base64Data,
                                             mime_type = file_type processedFile,
                                             source = ''pasted'',
                                             filename = utf16 ''pasted-image''\<rparr>\<rparr>]\<rparr>,
                           True))))
        else (s, prevented))"

definition pasteItems ::
  "config \<Rightarrow> item list \<Rightarrow> composer \<times> bool \<Rightarrow> composer \<times> bool" where
  "pasteItems cfg its acc = foldl (\<lambda>acc' it. pasteItem cfg it acc') acc its"

text \<open>
  \<open>handlePaste\<close> returns the new state and whether the default action of the event (the
  native paste) was prevented. Reading \<open>getData\<close> of an absent \<open>clipboardData\<close> throws.
\<close>

definition handlePaste ::
  "config \<Rightarrow> clipboardEvent \<Rightarrow> composer \<Rightarrow> error + composer \<times> bool" where
  "handlePaste cfg event s =
     (case clipboardData event of
        None \<Rightarrow> Inl TypeError
      | Some cd \<Rightarrow>
          (case pasteItems cfg (items cd) (s, False) of
             (s1, prevented) \<Rightarrow>
               (let pastedText = text_plain cd;
                    containsBeginMarker = includes_str pastedText (snippet_begin cfg);
                    containsEndMarker = includes_str pastedText (snippet_end cfg)
                in if containsBeginMarker \<or> containsEndMarker then Inr (s1, prevented)
                   else
                     (let newlineCount = count_list pastedText newline
                      in if newlineCount \<ge> MAX_ROWS cfg \<or> length pastedText > 80 * MAX_ROWS cfg
                         then Inr (insertTextAtCursorPosition (modifiedText cfg pastedText) s1,
                                   True)
                         else Inr (s1, prevented)))))"

subsection \<open>Keyboard, submit and cancel\<close>

record keyboardEvent =
  key :: string
  shiftKey :: bool

text \<open>\<open>e.currentTarget\<close> is the textarea the handler is attached to.\<close>

definition checkForSpecialKey :: "keyboardEvent \<Rightarrow> composer \<Rightarrow> composer \<times> bool" where
  "checkForSpecialKey e s =
     (let isEnter = (key e = ''Enter'')
      in if isEnter
         then (if shiftKey e then (s, False)
               else if \<not> loading s
               then (let s0 = (case textAreaRef s of
                                 None \<Rightarrow> s
                               | Some currentTarget \<Rightarrow>
                                   s\<lparr>selectionRef :=
                                       \<lparr>sel_start = orZero (selectionStart currentTarget),
                                        sel_end = orZero (selectionEnd currentTarget)\<rparr>\<rparr>);
                         messageText = draftText s;
                         s1 = setTextValue messageText s0;
                         s2 = s1\<lparr>callApp_calls := callApp_calls s1 @
                                [(messageText,
                                  if allowImageAttachment s = ''yes'' then fileDataRef s else [])]\<rparr>;
                         s3 = setTextAreaValue [] s2;
                         s4 = s3\<lparr>isExpanded := False\<rparr>;
                         s5 = s4\<lparr>selectionRef := \<lparr>sel_start = 0, sel_end = 0\<rparr>\<rparr>
                     in (focusComposer s5, True))
               else (s, False))
         else (s, False))"

definition handleSubmit :: "composer \<Rightarrow> composer \<times> bool" where
  "handleSubmit s =
     (let messageText = draftText s;
          s1 = setTextValue messageText s;
          s2 = s1\<lparr>callApp_calls := callApp_calls s1 @
                 [(messageText,
                   if allowImageAttachment s = ''yes'' then fileDataRef s else [])]\<rparr>;
          s3 = setTextAreaValue [] s2;
          s4 = s3\<lparr>isExpanded := False\<rparr>;
          s5 = s4\<lparr>selectionRef := \<lparr>sel_start = 0, sel_end = 0\<rparr>\<rparr>
      in (focusComposer s5, True))"

definition handleCancel :: "composer \<Rightarrow> composer \<times> bool" where
  "handleCancel s =
     (let s1 = s\<lparr>cancelStream_calls := Suc (cancelStream_calls s)\<rparr>
      in (s1\<lparr>loading := False\<rparr>, True))"

subsection \<open>The file picker\<close>

text \<open>
  The \<open>onchange\<close> listener of the file input, for one picked file. \<open>seen\<close> is the value
  of the state variable \<open>fileDataRef\<close> in the render that created the listener: the
  listener compares that array with the maximum, while the state update appends to the
  current one. Completed reads are applied in the order of the files.
\<close>

definition pickFile :: "config \<Rightarrow> FileDataRef list \<Rightarrow> jsfile \<Rightarrow> composer \<Rightarrow> composer" where
  "pickFile cfg seen f s =
     (if startsWith (file_type f) (utf16 ''image/'')
      then (if length seen \<ge> MAX_IMAGE_ATTACHMENTS_PER_MESSAGE cfg then s
            else (case preprocessImage cfg f of (base64Data, processedFile) \<Rightarrow>
                    s\<lparr>fileDataRef := fileDataRef s @
                        [\<lparr>ref_id = 0,
                          fileData = \<lparr>data = base64Data,
                                      mime_type = file_type processedFile,
                                      source = ''filename'',
                                      filename = file_name processedFile\<rparr>\<rparr>]\<rparr>))
      else if startsWith (file_type f) (utf16 ''text/'')
      then (let textContent = (case text_content f of None \<Rightarrow> utf16 ''null'' | Some t \<Rightarrow> t);
                formattedText =
                  utf16 ''File: '' @ file_name f @ utf16 '':'' @ [newline] @
                  snippet_begin cfg @ [newline] @ textContent @ [newline] @
                  snippet_end cfg @ [newline];
                s1 = insertTextAtCursorPosition formattedText s;
                s2 = (case textAreaRef s1 of
                        None \<Rightarrow> s1
                      | Some ta \<Rightarrow>
                          s1\<lparr>selectionRef :=
                               \<lparr>sel_start = orZero (selectionStart ta),
                                sel_end = orZero (selectionEnd ta)\<rparr>\<rparr>)
            in (case textAreaRef s2 of
                  None \<Rightarrow> s2
                | Some textArea \<Rightarrow>
                    s2\<lparr>timeouts := timeouts s2 @ [SetCursor (length (ta_value textArea))]\<rparr>))
      else s)"

definition handleAttachment_onchange ::
  "config \<Rightarrow> FileDataRef list \<Rightarrow> jsfile list option \<Rightarrow> composer \<Rightarrow> composer" where
  "handleAttachment_onchange cfg seen files s =
     (case files of
        None \<Rightarrow> s
      | Some fs \<Rightarrow> foldl (\<lambda>s' f. pickFile cfg seen f s') s fs)"

section \<open>Example inputs\<close>

text \<open>A configuration with short markers and small limits, for the concrete examples.\<close>

definition example_config :: config where
  "example_config =
     \<lparr>snippet_begin = utf16 ''<BEGIN>'', snippet_end = utf16 ''<END>'',
      MAX_ROWS = 2, MAX_IMAGE_ATTACHMENTS_PER_MESSAGE = 2,
      preprocessImage = (\<lambda>f. ([], f))\<rparr>"

text \<open>
  A composer in expanded mode that holds the text \<open>hello\<close> with the code units 1 and 2
  selected, and one attached image.
\<close>

definition example_image :: FileDataRef where
  "example_image =
     \<lparr>ref_id = 0,
      fileData = \<lparr>data = utf16 ''data:image/png;base64,AAAA'', mime_type = utf16 ''image/png'',
                  source = ''filename'', filename = utf16 ''a.png''\<rparr>\<rparr>"

definition example_composer :: composer where
  "example_composer =
     \<lparr>textValue = utf16 ''hello'', isTextEmpty = False,
      textAreaRef = Some \<lparr>ta_value = utf16 ''hello'', selectionStart = 1, selectionEnd = 3\<rparr>,
      selectionRef = \<lparr>sel_start = 1, sel_end = 3\<rparr>,
      fileDataRef = [example_image], isExpanded = True, draftText = utf16 ''hello'',
      loading = False, allowImageAttachment = ''yes'', callApp_calls = [],
      cancelStream_calls = 0, timeouts = []\<rparr>"

text \<open>A clipboard item holding a PNG image, and a picked PNG file.\<close>

definition example_png :: jsfile where
  "example_png =
     \<lparr>file_name = utf16 ''b.png'', file_type = utf16 ''image/png'',
      dataURL = Some (utf16 ''data:image/png;base64,BBBB''), text_content = None\<rparr>"

definition example_item :: item where
  "example_item = \<lparr>item_type = utf16 ''image/png'', getAsFile = Some example_png\<rparr>"

definition pasted_image :: FileDataRef where
  "pasted_image =
     \<lparr>ref_id = 0,
      fileData = \<lparr>data = [], mime_type = utf16 ''image/png'',
                  source = ''pasted'', filename = utf16 ''pasted-image''\<rparr>\<rparr>"

text \<open>
  Paste events: a short text together with an image, a text that is the begin marker
  together with an image, a text with two newlines together with an image, and a short
  text and a text with the end marker without any item.
\<close>

definition image_and_text_paste :: clipboardEvent where
  "image_and_text_paste =
     \<lparr>clipboardData = Some \<lparr>items = [example_item], text_plain = utf16 ''hi''\<rparr>\<rparr>"

definition image_and_marker_paste :: clipboardEvent where
  "image_and_marker_paste =
     \<lparr>clipboardData = Some \<lparr>items = [example_item], text_plain = utf16 ''<BEGIN>''\<rparr>\<rparr>"

definition three_lines :: jsstring where
  "three_lines = utf16 ''a'' @ [newline] @ utf16 ''b'' @ [newline] @ utf16 ''c''"

definition image_and_long_paste :: clipboardEvent where
  "image_and_long_paste =
     \<lparr>clipboardData = Some \<lparr>items = [example_item], text_plain = three_lines\<rparr>\<rparr>"

definition short_paste :: dataTransfer where
  "short_paste = \<lparr>items = [], text_plain = utf16 ''hi''\<rparr>"

definition marker_paste :: dataTransfer where
  "marker_paste = \<lparr>items = [], text_plain = utf16 ''x<END>''\<rparr>"

text \<open>A text of two lines with a Windows line ending.\<close>

definition crlf_text :: jsstring where
  "crlf_text = utf16 ''a'' @ [carriage_return, newline] @ utf16 ''b''"

section \<open>Properties of the string operations\<close>

lemma orZero_id [simp]: "orZero n = n"
  by (simp add: orZero_def)

lemma indexOf_None_iff: "indexOf s m = None \<longleftrightarrow> \<not> sublist m s"
  by (induction s) (auto simp: sublist_Cons_right)

lemma includes_str_sublist: "includes_str s m \<longleftrightarrow> sublist m s"
  by (simp add: includes_str_def indexOf_None_iff)

lemma indexOf_prefix: "indexOf (m @ r) m = Some 0"
proof (cases "m @ r")
  case Nil
  then show ?thesis by simp
next
  case (Cons a l)
  have "prefix m (m @ r)" by simp
  with Cons show ?thesis by simp
qed

lemma prefix_past_separator:
  "prefix m (p @ c # r) \<Longrightarrow> c \<notin> set m \<Longrightarrow> prefix m p"
  by (auto simp: prefix_append prefix_Cons)

lemma indexOf_skip:
  assumes "c \<notin> set m" and "m \<noteq> []" and "\<not> sublist m p"
  shows "indexOf (p @ c # r) m = map_option (\<lambda>i. length p + 1 + i) (indexOf r m)"
  using assms(3)
proof (induction p)
  case Nil
  from assms(1,2) have "\<not> prefix m (c # r)"
    by (cases m) (auto simp: prefix_Cons)
  then show ?case by (simp add: option.map_comp comp_def)
next
  case (Cons a p)
  then have np: "\<not> prefix m (a # p)" and ns: "\<not> sublist m p"
    by (auto simp: sublist_Cons_right)
  have "\<not> prefix m (a # p @ c # r)"
    using prefix_past_separator [of m "a # p" c r] assms(1) np by auto
  with Cons.IH [OF ns] show ?case
    by (simp add: option.map_comp comp_def)
qed

lemma indexOf_split:
  "indexOf s m = Some i \<Longrightarrow> take i s @ m @ drop (i + length m) s = s"
proof (induction s arbitrary: i)
  case Nil
  then show ?case by (simp split: if_splits)
next
  case (Cons c s)
  show ?case
  proof (cases "prefix m (c # s)")
    case True
    with Cons.prems have "i = 0" by simp
    with True show ?thesis by (auto simp: prefix_def)
  next
    case False
    with Cons.prems obtain j where j: "indexOf s m = Some j" "i = Suc j" by auto
    with Cons.IH [OF j(1)] show ?thesis by simp
  qed
qed

lemma substring_take: "substring s 0 n = take n s"
  by (simp add: substring_def Let_def min_def)

lemma substring_from_drop: "substring_from s n = drop n s"
  by (simp add: substring_from_def substring_def Let_def min_def max_def)

lemma split_str_first:
  "sep \<noteq> [] \<Longrightarrow>
   split_str s sep =
     (case indexOf s sep of None \<Rightarrow> s | Some b \<Rightarrow> take b s) #
     (case indexOf s sep of None \<Rightarrow> [] | Some b \<Rightarrow> split_str (drop (b + length sep) s) sep)"
  by (subst split_str.simps) (simp split: option.splits)


lemma indexOf_first:
  "indexOf s m = Some i \<Longrightarrow> m \<noteq> [] \<Longrightarrow> \<not> sublist m (take (i + length m - 1) s)"
proof (induction s arbitrary: i)
  case Nil
  then show ?case by simp
next
  case (Cons c s)
  show ?case
  proof (cases "prefix m (c # s)")
    case True
    with Cons.prems have i: "i = 0" by simp
    have "length (take (i + length m - 1) (c # s)) < length m"
      using Cons.prems(2) i by (cases m) auto
    then show ?thesis
      using sublist_length_le [of m "take (i + length m - 1) (c # s)"] by linarith
  next
    case False
    with Cons.prems obtain j where j: "indexOf s m = Some j" "i = Suc j" by auto
    from Cons.prems(2) have tk: "take (i + length m - 1) (c # s) = c # take (j + length m - 1) s"
      using j(2) by (cases m) auto
    have "\<not> prefix m (c # take (j + length m - 1) s)"
    proof
      assume "prefix m (c # take (j + length m - 1) s)"
      moreover have "prefix (c # take (j + length m - 1) s) (c # s)"
        by (simp add: take_is_prefix)
      ultimately have "prefix m (c # s)" by (rule prefix_order.trans)
      with False show False by simp
    qed
    with Cons.IH [OF j(1) Cons.prems(2)] tk show ?thesis
      by (simp add: sublist_Cons_right)
  qed
qed

lemma indexOf_end_in_wrapped:
  assumes "n \<notin> set e" and "e \<noteq> []" and "\<not> sublist e T"
  shows "indexOf (n # T @ n # e @ [n]) e = Some (length T + 2)"
proof -
  have "indexOf (T @ n # e @ [n]) e = Some (length T + 1)"
    using indexOf_skip [OF assms, of "e @ [n]"] by (simp add: indexOf_prefix)
  moreover have "indexOf ([] @ n # T @ n # e @ [n]) e =
      map_option (\<lambda>i. length ([] :: 'a list) + 1 + i) (indexOf (T @ n # e @ [n]) e)"
    using assms(1,2) by (intro indexOf_skip) simp_all
  ultimately show ?thesis by simp
qed

lemma indexOf_begin_in_wrapped:
  assumes "n \<notin> set b" and "b \<noteq> []" and "\<not> sublist b T" and "\<not> sublist b e"
  shows "indexOf (n # T @ n # e @ [n]) b = None"
proof -
  have "indexOf (e @ [n]) b = None"
    using indexOf_skip [OF assms(1,2,4), of "[]"] assms(2) by simp
  then have "indexOf (T @ n # e @ [n]) b = None"
    using indexOf_skip [OF assms(1,2,3), of "e @ [n]"] by simp
  moreover have "indexOf ([] @ n # T @ n # e @ [n]) b =
      map_option (\<lambda>i. length ([] :: 'a list) + 1 + i) (indexOf (T @ n # e @ [n]) b)"
    using assms(1,2) by (intro indexOf_skip) simp_all
  ultimately show ?thesis by simp
qed

lemma split_str_wrapped:
  assumes "n \<notin> set b" and "b \<noteq> []" and "\<not> sublist b T" and "\<not> sublist b e"
  shows "split_str (b @ [n] @ T @ [n] @ e @ [n]) b = [[], n # T @ n # e @ [n]]"
proof -
  let ?r = "n # T @ n # e @ [n]"
  have r: "indexOf ?r b = None" using assms by (rule indexOf_begin_in_wrapped)
  have "indexOf (b @ ?r) b = Some 0" by (rule indexOf_prefix)
  then have "split_str (b @ ?r) b = [] # split_str ?r b"
    using assms(2) by (subst split_str.simps) simp
  also have "split_str ?r b = [?r]"
    using assms(2) r by (subst split_str.simps) simp
  finally show ?thesis by simp
qed

section \<open>Properties of the segmentation parser\<close>

text \<open>
  In the theorems below a prose segment is an element built by \<open>renderMarkdownSection\<close>
  (the empty fragment for an empty text, a markdown block otherwise) and a snippet segment
  is a \<open>FoldableTextSection\<close>.
\<close>

text \<open>
  Claim C2, as stated, fails: the snippet recovered from a wrapped paste is not the pasted
  text, nor the pasted text followed by one newline. For the pasted text \<open>a\<close> the only
  snippet is the text with a newline on both sides.
\<close>

theorem snippet_is_not_the_pasted_text:
  "\<not> includes_str (utf16 ''a'') (snippet_begin example_config) \<and>
   \<not> includes_str (utf16 ''a'') (snippet_end example_config) \<and>
   snippets (processText example_config (modifiedText example_config (utf16 ''a''))) =
     [[newline] @ utf16 ''a'' @ [newline]] \<and>
   [newline] @ utf16 ''a'' @ [newline] \<noteq> utf16 ''a'' \<and>
   [newline] @ utf16 ''a'' @ [newline] \<noteq> utf16 ''a'' @ [newline]"
  by (simp add: example_config_def utf16_def includes_str_def newline_def modifiedText_def
      processText_def split_str.simps processSection_def substring_def substring_from_def
      renderMarkdownSection_def)

text \<open>
  Claim C2, amended. When the markers contain no newline and the begin marker does not
  occur inside the end marker, then for every text \<open>T\<close> containing neither marker,
  parsing the wrapped paste yields exactly three elements: an empty prose fragment for the
  empty text before the begin marker, one snippet whose content is \<open>T\<close> with the two
  newlines the wrapping puts inside the marker pair, and the prose of the single newline
  after the end marker. No code unit is lost or duplicated.
\<close>

theorem wrap_then_parse:
  assumes "\<not> includes_str T (snippet_begin cfg)"
    and "\<not> includes_str T (snippet_end cfg)"
    and "newline \<notin> set (snippet_begin cfg)"
    and "newline \<notin> set (snippet_end cfg)"
    and "\<not> includes_str (snippet_end cfg) (snippet_begin cfg)"
  shows "processText cfg (modifiedText cfg T) =
           [Fragment (Text 0),
            FoldableTextSection (Foldable 1) ([newline] @ T @ [newline]),
            MarkdownSection (TextAfter 1) [newline]]"
proof -
  let ?b = "snippet_begin cfg" and ?e = "snippet_end cfg"
  let ?r = "newline # T @ newline # ?e @ [newline]"
  from assms(1) have b: "?b \<noteq> []" and bT: "\<not> sublist ?b T"
    by (auto simp: includes_str_sublist)
  from assms(2) have e: "?e \<noteq> []" and eT: "\<not> sublist ?e T"
    by (auto simp: includes_str_sublist)
  from assms(5) have be: "\<not> sublist ?b ?e" by (simp add: includes_str_sublist)
  have pieces: "split_str (modifiedText cfg T) ?b = [[], ?r]"
    unfolding modifiedText_def using assms(3) b bT be by (rule split_str_wrapped)
  have first: "processSection cfg 0 [] = [Fragment (Text 0)]"
    using e by (simp add: processSection_def includes_str_def renderMarkdownSection_def)
  have idx: "indexOf ?r ?e = Some (length T + 2)"
    using assms(4) e eT by (rule indexOf_end_in_wrapped)
  have second: "processSection cfg (Suc 0) ?r =
      [FoldableTextSection (Foldable (Suc 0)) (newline # T @ [newline]),
       MarkdownSection (TextAfter (Suc 0)) [newline]]"
    by (simp add: processSection_def idx substring_take substring_from_drop
        renderMarkdownSection_def del: indexOf.simps)
  have "processText cfg (modifiedText cfg T) =
      processSection cfg 0 [] @ processSection cfg (Suc 0) ?r"
    by (simp add: processText_def pieces)
  then show ?thesis by (simp add: first second)
qed


theorem wrap_then_parse_witness:
  "\<not> includes_str (utf16 ''hi'') (snippet_begin example_config) \<and>
   \<not> includes_str (utf16 ''hi'') (snippet_end example_config) \<and>
   newline \<notin> set (snippet_begin example_config) \<and>
   newline \<notin> set (snippet_end example_config) \<and>
   \<not> includes_str (snippet_end example_config) (snippet_begin example_config) \<and>
   processText example_config (modifiedText example_config (utf16 ''hi'')) =
     [Fragment (Text 0),
      FoldableTextSection (Foldable 1) ([newline] @ utf16 ''hi'' @ [newline]),
      MarkdownSection (TextAfter 1) [newline]]"
proof -
  have h1: "\<not> includes_str (utf16 ''hi'') (snippet_begin example_config)"
    and h2: "\<not> includes_str (utf16 ''hi'') (snippet_end example_config)"
    and h3: "newline \<notin> set (snippet_begin example_config)"
    and h4: "newline \<notin> set (snippet_end example_config)"
    and h5: "\<not> includes_str (snippet_end example_config) (snippet_begin example_config)"
    by (simp_all add: example_config_def utf16_def includes_str_def newline_def)
  from wrap_then_parse [OF h1 h2 h3 h4 h5] h1 h2 h3 h4 h5 show ?thesis by simp
qed

lemma processSection_nonempty: "processSection cfg i sec \<noteq> []"
  by (simp add: processSection_def Let_def split: option.splits)

lemma length_concat_ge:
  "(\<And>x. x \<in> set xs \<Longrightarrow> f x \<noteq> []) \<Longrightarrow> length xs \<le> length (concat (map f xs))"
proof (induction xs)
  case Nil
  then show ?case by simp
next
  case (Cons x xs)
  then have "f x \<noteq> []" and "length xs \<le> length (concat (map f xs))" by auto
  then show ?case by (cases "f x") auto
qed

lemma enumerate_nth_split:
  "i < length xs \<Longrightarrow>
   enumerate n xs = enumerate n (take i xs) @ (n + i, xs ! i) # enumerate (Suc (n + i)) (drop (Suc i) xs)"
proof -
  assume i: "i < length xs"
  then have "xs = take i xs @ xs ! i # drop (Suc i) xs" by (rule id_take_nth_drop)
  then have "enumerate n xs = enumerate n (take i xs @ xs ! i # drop (Suc i) xs)" by simp
  also have "\<dots> = enumerate n (take i xs) @ enumerate (n + i) (xs ! i # drop (Suc i) xs)"
    using i by (simp add: enumerate_append_eq min_def)
  finally show ?thesis by simp
qed

lemma unterminated_piece:
  assumes "pieces = split_str inputText (snippet_begin cfg)"
    and "0 < i" and "i < length pieces"
    and "\<not> includes_str (pieces ! i) (snippet_end cfg)"
  shows "processText cfg inputText =
           concat (map (\<lambda>(index, section). processSection cfg index section)
                       (enumerate 0 (take i pieces))) @
           [renderMarkdownSection (pieces ! i) (TextStart i)] @
           concat (map (\<lambda>(index, section). processSection cfg index section)
                       (enumerate (Suc i) (drop (Suc i) pieces)))"
proof -
  from assms(4) have "indexOf (pieces ! i) (snippet_end cfg) = None"
    by (simp add: includes_str_def)
  with assms(2) have sec:
    "processSection cfg i (pieces ! i) = [renderMarkdownSection (pieces ! i) (TextStart i)]"
    by (simp add: processSection_def)
  have "processText cfg inputText =
      concat (map (\<lambda>(index, section). processSection cfg index section) (enumerate 0 pieces))"
    by (simp add: processText_def assms(1))
  also have "enumerate 0 pieces =
      enumerate 0 (take i pieces) @ (i, pieces ! i) # enumerate (Suc i) (drop (Suc i) pieces)"
    using enumerate_nth_split [OF assms(3), of 0] by simp
  finally show ?thesis by (simp add: sec)
qed

lemma every_piece_emits:
  "length (split_str inputText (snippet_begin cfg)) \<le> length (processText cfg inputText)"
proof -
  let ?pieces = "split_str inputText (snippet_begin cfg)"
  have "length (enumerate 0 ?pieces) \<le>
      length (concat (map (\<lambda>(index, section). processSection cfg index section)
                          (enumerate 0 ?pieces)))"
    by (rule length_concat_ge) (auto simp: processSection_nonempty)
  then show ?thesis by (simp add: processText_def)
qed

text \<open>
  Claim C9. The parser is a total function: it returns an element list for every input,
  with at least one element for each piece of the split. For every piece after the first
  that contains no end marker, the whole piece is emitted as one prose segment, between
  the elements of the pieces before it and those of the pieces after it.
\<close>

theorem parser_total_and_lenient:
  "length (split_str inputText (snippet_begin cfg)) \<le> length (processText cfg inputText) \<and>
   (\<forall>i. 0 < i \<and> i < length (split_str inputText (snippet_begin cfg)) \<and>
        \<not> includes_str (split_str inputText (snippet_begin cfg) ! i) (snippet_end cfg) \<longrightarrow>
        processText cfg inputText =
          concat (map (\<lambda>(index, section). processSection cfg index section)
                      (enumerate 0 (take i (split_str inputText (snippet_begin cfg))))) @
          [renderMarkdownSection (split_str inputText (snippet_begin cfg) ! i) (TextStart i)] @
          concat (map (\<lambda>(index, section). processSection cfg index section)
                      (enumerate (Suc i)
                         (drop (Suc i) (split_str inputText (snippet_begin cfg))))))"
  using every_piece_emits [of inputText cfg] unterminated_piece [OF refl, of _ inputText cfg]
  by blast

theorem parser_total_and_lenient_witness:
  "split_str (utf16 ''x<BEGIN>yz'') (snippet_begin example_config) = [utf16 ''x'', utf16 ''yz''] \<and>
   \<not> includes_str (utf16 ''yz'') (snippet_end example_config) \<and>
   processText example_config (utf16 ''x<BEGIN>yz'') =
     [MarkdownSection (Text 0) (utf16 ''x''), MarkdownSection (TextStart 1) (utf16 ''yz'')]"
proof -
  have h1: "split_str (utf16 ''x<BEGIN>yz'') (snippet_begin example_config) =
      [utf16 ''x'', utf16 ''yz'']"
    by (simp add: example_config_def utf16_def split_str.simps)
  have h4: "\<not> includes_str (utf16 ''yz'') (snippet_end example_config)"
    by (simp add: example_config_def utf16_def includes_str_def)
  have first: "processSection example_config 0 (utf16 ''x'') = [MarkdownSection (Text 0) (utf16 ''x'')]"
    by (simp add: example_config_def utf16_def includes_str_def processSection_def
        renderMarkdownSection_def)
  from parser_total_and_lenient [of "utf16 ''x<BEGIN>yz''" example_config]
  have "0 < (1::nat) \<and> 1 < length (split_str (utf16 ''x<BEGIN>yz'') (snippet_begin example_config)) \<and>
        \<not> includes_str (split_str (utf16 ''x<BEGIN>yz'') (snippet_begin example_config) ! 1)
             (snippet_end example_config) \<longrightarrow>
        processText example_config (utf16 ''x<BEGIN>yz'') =
          concat (map (\<lambda>(index, section). processSection example_config index section)
                      (enumerate 0 (take 1 (split_str (utf16 ''x<BEGIN>yz'')
                                               (snippet_begin example_config))))) @
          [renderMarkdownSection
             (split_str (utf16 ''x<BEGIN>yz'') (snippet_begin example_config) ! 1) (TextStart 1)] @
          concat (map (\<lambda>(index, section). processSection example_config index section)
                      (enumerate (Suc 1)
                         (drop (Suc 1) (split_str (utf16 ''x<BEGIN>yz'')
                                          (snippet_begin example_config)))))"
    by blast
  with h4 have "processText example_config (utf16 ''x<BEGIN>yz'') =
      processSection example_config 0 (utf16 ''x'') @
      [renderMarkdownSection (utf16 ''yz'') (TextStart 1)]"
    by (simp add: h1)
  then have "processText example_config (utf16 ''x<BEGIN>yz'') =
      [MarkdownSection (Text 0) (utf16 ''x''), MarkdownSection (TextStart 1) (utf16 ''yz'')]"
    by (simp add: first) (simp add: renderMarkdownSection_def utf16_def)
  with h1 h4 show ?thesis by blast
qed

text \<open>
  Claim C10. When the text before the first begin marker (the whole input when there is
  none) contains the end marker, the parser emits the part of that piece before its first
  end marker as a snippet, then the remainder after that end marker as prose when it is not
  empty, then the elements of the later pieces.
\<close>

theorem stray_end_marker_is_snippet:
  assumes "snippet_begin cfg \<noteq> []"
    and "p = (case indexOf inputText (snippet_begin cfg) of
                None \<Rightarrow> inputText | Some b \<Rightarrow> take b inputText)"
    and "includes_str p (snippet_end cfg)"
  shows "\<exists>e. indexOf p (snippet_end cfg) = Some e \<and>
           p = take e p @ snippet_end cfg @ drop (e + length (snippet_end cfg)) p \<and>
           processText cfg inputText =
             FoldableTextSection (Foldable 0) (take e p) #
             (if drop (e + length (snippet_end cfg)) p \<noteq> []
              then [MarkdownSection (TextAfter 0) (drop (e + length (snippet_end cfg)) p)]
              else []) @
             concat (map (\<lambda>(index, section). processSection cfg index section)
                         (enumerate 1 (tl (split_str inputText (snippet_begin cfg)))))"
proof -
  from assms(3) obtain e where e: "indexOf p (snippet_end cfg) = Some e"
    by (auto simp: includes_str_def)
  have dec: "p = take e p @ snippet_end cfg @ drop (e + length (snippet_end cfg)) p"
    using indexOf_split [OF e] by simp
  obtain ps where ps: "split_str inputText (snippet_begin cfg) = p # ps"
    using split_str_first [OF assms(1), of inputText] assms(2) by simp
  have sec: "processSection cfg 0 p =
      FoldableTextSection (Foldable 0) (take e p) #
      (if drop (e + length (snippet_end cfg)) p \<noteq> []
       then [MarkdownSection (TextAfter 0) (drop (e + length (snippet_end cfg)) p)]
       else [])"
    using assms(3)
    by (simp add: processSection_def e substring_take substring_from_drop
        renderMarkdownSection_def)
  have "processText cfg inputText =
      processSection cfg 0 p @
      concat (map (\<lambda>(index, section). processSection cfg index section) (enumerate 1 ps))"
    by (simp add: processText_def ps)
  with e dec ps sec show ?thesis by simp
qed

theorem stray_end_marker_is_snippet_witness:
  "snippet_begin example_config \<noteq> [] \<and>
   utf16 ''x<END>y'' =
     (case indexOf (utf16 ''x<END>y<BEGIN>q'') (snippet_begin example_config) of
        None \<Rightarrow> utf16 ''x<END>y<BEGIN>q'' | Some b \<Rightarrow> take b (utf16 ''x<END>y<BEGIN>q'')) \<and>
   includes_str (utf16 ''x<END>y'') (snippet_end example_config) \<and>
   processText example_config (utf16 ''x<END>y<BEGIN>q'') =
     [FoldableTextSection (Foldable 0) (utf16 ''x''),
      MarkdownSection (TextAfter 0) (utf16 ''y''),
      MarkdownSection (TextStart 1) (utf16 ''q'')]"
proof -
  have h1: "snippet_begin example_config \<noteq> []"
    by (simp add: example_config_def utf16_def)
  have h2: "utf16 ''x<END>y'' =
     (case indexOf (utf16 ''x<END>y<BEGIN>q'') (snippet_begin example_config) of
        None \<Rightarrow> utf16 ''x<END>y<BEGIN>q'' | Some b \<Rightarrow> take b (utf16 ''x<END>y<BEGIN>q''))"
    by (simp add: example_config_def utf16_def)
  have h3: "includes_str (utf16 ''x<END>y'') (snippet_end example_config)"
    by (simp add: example_config_def utf16_def includes_str_def)
  have idx: "indexOf (utf16 ''x<END>y'') (snippet_end example_config) = Some 1"
    by (simp add: example_config_def utf16_def)
  from stray_end_marker_is_snippet [OF h1 h2 h3] idx
  have "processText example_config (utf16 ''x<END>y<BEGIN>q'') =
     FoldableTextSection (Foldable 0) (take 1 (utf16 ''x<END>y'')) #
     (if drop (1 + length (snippet_end example_config)) (utf16 ''x<END>y'') \<noteq> []
      then [MarkdownSection (TextAfter 0)
              (drop (1 + length (snippet_end example_config)) (utf16 ''x<END>y''))]
      else []) @
     concat (map (\<lambda>(index, section). processSection example_config index section)
                 (enumerate 1 (tl (split_str (utf16 ''x<END>y<BEGIN>q'')
                                     (snippet_begin example_config)))))"
    by auto
  then have "processText example_config (utf16 ''x<END>y<BEGIN>q'') =
     [FoldableTextSection (Foldable 0) (utf16 ''x''),
      MarkdownSection (TextAfter 0) (utf16 ''y''),
      MarkdownSection (TextStart 1) (utf16 ''q'')]"
    by (simp add: example_config_def utf16_def split_str.simps processSection_def
        renderMarkdownSection_def)
  with h1 h2 h3 show ?thesis by blast
qed

section \<open>Properties of the composer\<close>

subsection \<open>Inserting at the cursor\<close>

lemma normalizeNewlines_id: "carriage_return \<notin> set v \<Longrightarrow> normalizeNewlines v = v"
  by (induction v rule: normalizeNewlines.induct) auto

lemma ta_value_set_value: "ta_value (set_value v ta) = normalizeNewlines v"
  by (simp add: set_value_def Let_def)

lemma set_cursor_collapses:
  "set_selectionEnd p (set_selectionStart p ta) =
     ta\<lparr>selectionStart := min p (length (ta_value ta)),
        selectionEnd := min p (length (ta_value ta))\<rparr>"
  by (simp add: set_selectionEnd_def set_selectionStart_def setSelectionRange_def Let_def
      min_def max_def)

lemma insertTextAtCursorPosition_fields:
  assumes "textAreaRef s = Some ta"
    and "selectionStart ta \<le> selectionEnd ta"
    and "selectionEnd ta \<le> length (ta_value ta)"
  shows "draftText (insertTextAtCursorPosition t s) =
           take (selectionStart ta) (ta_value ta) @ t @ drop (selectionEnd ta) (ta_value ta)"
    and "textValue (insertTextAtCursorPosition t s) =
           take (selectionStart ta) (ta_value ta) @ t @ drop (selectionEnd ta) (ta_value ta)"
    and "map_option ta_value (textAreaRef (insertTextAtCursorPosition t s)) =
           Some (normalizeNewlines
                  (take (selectionStart ta) (ta_value ta) @ t @
                   drop (selectionEnd ta) (ta_value ta)))"
    and "selectionRef (insertTextAtCursorPosition t s) =
           \<lparr>sel_start = selectionStart ta + length t, sel_end = selectionStart ta + length t\<rparr>"
    and "timeouts (insertTextAtCursorPosition t s) =
           timeouts s @ [SetCursor (selectionStart ta + length t)]"
    and "fileDataRef (insertTextAtCursorPosition t s) = fileDataRef s"
    and "isExpanded (insertTextAtCursorPosition t s) = isExpanded s"
    and "callApp_calls (insertTextAtCursorPosition t s) = callApp_calls s"
  using assms
  by (simp_all add: insertTextAtCursorPosition_def setTextAreaValue_def setTextValue_def
      Let_def substring_take substring_from_drop ta_value_set_value)

lemma insertTextAtCursorPosition_fileDataRef:
  "fileDataRef (insertTextAtCursorPosition t s) = fileDataRef s"
  by (simp add: insertTextAtCursorPosition_def setTextAreaValue_def setTextValue_def
      Let_def split: option.splits)

text \<open>
  For a text without a carriage return, inserted into a textarea with a valid selection,
  the queued callback puts the cursor of the textarea right after the inserted text.
\<close>

lemma insertTextAtCursorPosition_cursor:
  assumes "textAreaRef s = Some ta"
    and "selectionStart ta \<le> selectionEnd ta"
    and "selectionEnd ta \<le> length (ta_value ta)"
    and "carriage_return \<notin> set t"
    and "carriage_return \<notin> set (ta_value ta)"
  shows "\<exists>ta'. textAreaRef (runTask (SetCursor (selectionStart ta + length t))
                      (insertTextAtCursorPosition t s)) = Some ta' \<and>
           ta_value ta' =
             take (selectionStart ta) (ta_value ta) @ t @ drop (selectionEnd ta) (ta_value ta) \<and>
           selectionStart ta' = selectionStart ta + length t \<and>
           selectionEnd ta' = selectionStart ta + length t"
proof -
  let ?new = "take (selectionStart ta) (ta_value ta) @ t @ drop (selectionEnd ta) (ta_value ta)"
  let ?s' = "insertTextAtCursorPosition t s"
  have "carriage_return \<notin> set ?new"
    using assms(4,5) by (auto dest: in_set_takeD in_set_dropD)
  then have norm: "normalizeNewlines ?new = ?new" by (rule normalizeNewlines_id)
  from insertTextAtCursorPosition_fields(3) [OF assms(1,2,3), of t] norm
  obtain ta1 where ta1: "textAreaRef ?s' = Some ta1" "ta_value ta1 = ?new" by auto
  have "selectionStart ta + length t \<le> length (ta_value ta1)"
    using assms(2,3) ta1(2) by simp
  then have "set_selectionEnd (selectionStart ta + length t)
               (set_selectionStart (selectionStart ta + length t) ta1) =
             ta1\<lparr>selectionStart := selectionStart ta + length t,
                 selectionEnd := selectionStart ta + length t\<rparr>"
    by (simp add: set_cursor_collapses min_def)
  with ta1 show ?thesis by simp
qed

text \<open>
  Claim C7 does not hold of the code for a text with a carriage return. Inserting the
  four code units \<open>a\<close>, carriage return, line feed, \<open>b\<close> over the selection of the example
  composer puts them into the draft and sets \<open>selectionRef\<close> to \<open>{5, 5}\<close>, the start plus
  the length of the text. The textarea holds the normalised value, where the inserted text
  ends at 4: the queued callback puts its cursor at 5, after the \<open>l\<close> that follows the
  inserted text, and a further insertion lands there.
\<close>

theorem cursor_past_inserted_text:
  "draftText (insertTextAtCursorPosition crlf_text example_composer) =
     utf16 ''ha'' @ [carriage_return, newline] @ utf16 ''blo'' \<and>
   selectionRef (insertTextAtCursorPosition crlf_text example_composer) =
     \<lparr>sel_start = 5, sel_end = 5\<rparr> \<and>
   textAreaRef (runTimeouts (insertTextAtCursorPosition crlf_text example_composer)) =
     Some \<lparr>ta_value = utf16 ''ha'' @ [newline] @ utf16 ''blo'',
           selectionStart = 5, selectionEnd = 5\<rparr> \<and>
   draftText (insertTextAtCursorPosition (utf16 ''X'')
     (runTimeouts (insertTextAtCursorPosition crlf_text example_composer))) =
     utf16 ''ha'' @ [newline] @ utf16 ''blXo''"
  by (simp add: example_composer_def crlf_text_def utf16_def carriage_return_def newline_def
      insertTextAtCursorPosition_def setTextAreaValue_def setTextValue_def set_value_def
      Let_def substring_def substring_from_def runTimeouts_def set_selectionEnd_def
      set_selectionStart_def setSelectionRange_def)

subsection \<open>Submit, cancel and the keyboard\<close>

lemma trim_empty: "trim [] = []"
  by (simp add: trim_def)

lemma handleSubmit_fields:
  "callApp_calls (fst (handleSubmit s)) =
     callApp_calls s @
       [(draftText s, if allowImageAttachment s = ''yes'' then fileDataRef s else [])]"
  "draftText (fst (handleSubmit s)) = []"
  "textValue (fst (handleSubmit s)) = []"
  "map_option ta_value (textAreaRef (fst (handleSubmit s))) =
     map_option (\<lambda>ta. []) (textAreaRef s)"
  "isTextEmpty (fst (handleSubmit s))"
  "selectionRef (fst (handleSubmit s)) = \<lparr>sel_start = 0, sel_end = 0\<rparr>"
  "\<not> isExpanded (fst (handleSubmit s))"
  "fileDataRef (fst (handleSubmit s)) = fileDataRef s"
  "timeouts (fst (handleSubmit s)) = timeouts s @ [FocusComposer]"
  "loading (fst (handleSubmit s)) = loading s"
  "snd (handleSubmit s)"
  by (simp_all add: handleSubmit_def Let_def setTextAreaValue_def setTextValue_def
      focusComposer_def trim_empty ta_value_set_value option.map_comp comp_def)


lemma enter_is_submit:
  "key e = ''Enter'' \<Longrightarrow> \<not> shiftKey e \<Longrightarrow> \<not> loading s \<Longrightarrow>
   checkForSpecialKey e s = handleSubmit s"
  by (cases "textAreaRef s")
     (simp_all add: checkForSpecialKey_def handleSubmit_def Let_def setTextAreaValue_def
        setTextValue_def focusComposer_def)



text \<open>
  Claim C4, as stated, fails: cancelling in expanded mode leaves the composer expanded.
\<close>

theorem cancel_keeps_expanded:
  "loading (example_composer\<lparr>loading := True\<rparr>) \<and>
   isExpanded (example_composer\<lparr>loading := True\<rparr>) \<and>
   isExpanded (fst (handleCancel (example_composer\<lparr>loading := True\<rparr>)))"
  by (simp add: example_composer_def handleCancel_def)

text \<open>
  Claim C4, amended. For every composer state, \<open>handleCancel\<close> signals the streaming
  collaborator once and clears the loading flag; it leaves the composition mode as it
  was, and does not touch the text, the selection, the attachment store or the record of
  sent messages.
\<close>

theorem cancel_leaves_mode_unchanged:
  "isExpanded (fst (handleCancel s)) = isExpanded s \<and>
   cancelStream_calls (fst (handleCancel s)) = Suc (cancelStream_calls s) \<and>
   \<not> loading (fst (handleCancel s)) \<and>
   draftText (fst (handleCancel s)) = draftText s \<and>
   textValue (fst (handleCancel s)) = textValue s \<and>
   textAreaRef (fst (handleCancel s)) = textAreaRef s \<and>
   selectionRef (fst (handleCancel s)) = selectionRef s \<and>
   fileDataRef (fst (handleCancel s)) = fileDataRef s \<and>
   callApp_calls (fst (handleCancel s)) = callApp_calls s"
  by (simp add: handleCancel_def)

text \<open>
  Claim C8. A plain Enter (Shift not held) while not loading calls the send callback
  exactly once, with the draft text, empties the draft and prevents the default action;
  Enter with Shift held changes nothing and leaves the default action (the textarea
  inserts the newline); Enter while loading changes nothing and sends nothing.
\<close>

theorem keyboard_submit_policy:
  "(key e = ''Enter'' \<and> \<not> shiftKey e \<and> \<not> loading s \<longrightarrow>
      callApp_calls (fst (checkForSpecialKey e s)) =
        callApp_calls s @
          [(draftText s, if allowImageAttachment s = ''yes'' then fileDataRef s else [])] \<and>
      draftText (fst (checkForSpecialKey e s)) = [] \<and>
      snd (checkForSpecialKey e s)) \<and>
   (key e = ''Enter'' \<and> shiftKey e \<longrightarrow> checkForSpecialKey e s = (s, False)) \<and>
   (key e = ''Enter'' \<and> loading s \<longrightarrow> checkForSpecialKey e s = (s, False))"
proof (intro conjI impI)
  assume "key e = ''Enter'' \<and> \<not> shiftKey e \<and> \<not> loading s"
  then have eq: "checkForSpecialKey e s = handleSubmit s" by (simp add: enter_is_submit)
  show "callApp_calls (fst (checkForSpecialKey e s)) =
        callApp_calls s @
          [(draftText s, if allowImageAttachment s = ''yes'' then fileDataRef s else [])]"
    and "draftText (fst (checkForSpecialKey e s)) = []"
    and "snd (checkForSpecialKey e s)"
    unfolding eq by (rule handleSubmit_fields)+
next
  assume "key e = ''Enter'' \<and> shiftKey e"
  then show "checkForSpecialKey e s = (s, False)" by (simp add: checkForSpecialKey_def)
next
  assume "key e = ''Enter'' \<and> loading s"
  then show "checkForSpecialKey e s = (s, False)" by (simp add: checkForSpecialKey_def)
qed

theorem keyboard_submit_policy_witness:
  "callApp_calls
     (fst (checkForSpecialKey \<lparr>key = ''Enter'', shiftKey = False\<rparr> example_composer)) =
     [(utf16 ''hello'', [example_image])] \<and>
   checkForSpecialKey \<lparr>key = ''Enter'', shiftKey = True\<rparr> example_composer =
     (example_composer, False) \<and>
   checkForSpecialKey \<lparr>key = ''Enter'', shiftKey = False\<rparr>
     (example_composer\<lparr>loading := True\<rparr>) = (example_composer\<lparr>loading := True\<rparr>, False)"
proof -
  have a: "key \<lparr>key = ''Enter'', shiftKey = False\<rparr> = ''Enter'' \<and>
      \<not> shiftKey \<lparr>key = ''Enter'', shiftKey = False\<rparr> \<and> \<not> loading example_composer"
    by (simp add: example_composer_def)
  have b: "key \<lparr>key = ''Enter'', shiftKey = True\<rparr> = ''Enter'' \<and>
      shiftKey \<lparr>key = ''Enter'', shiftKey = True\<rparr>"
    by simp
  have c: "key \<lparr>key = ''Enter'', shiftKey = False\<rparr> = ''Enter'' \<and>
      loading (example_composer\<lparr>loading := True\<rparr>)"
    by simp
  from keyboard_submit_policy [of "\<lparr>key = ''Enter'', shiftKey = False\<rparr>" example_composer] a
  have "callApp_calls
     (fst (checkForSpecialKey \<lparr>key = ''Enter'', shiftKey = False\<rparr> example_composer)) =
     [(utf16 ''hello'', [example_image])]"
    by (simp add: example_composer_def)
  moreover
  from keyboard_submit_policy [of "\<lparr>key = ''Enter'', shiftKey = True\<rparr>" example_composer] b
  have "checkForSpecialKey \<lparr>key = ''Enter'', shiftKey = True\<rparr> example_composer =
     (example_composer, False)"
    by blast
  moreover
  from keyboard_submit_policy [of "\<lparr>key = ''Enter'', shiftKey = False\<rparr>"
      "example_composer\<lparr>loading := True\<rparr>"] c
  have "checkForSpecialKey \<lparr>key = ''Enter'', shiftKey = False\<rparr>
     (example_composer\<lparr>loading := True\<rparr>) = (example_composer\<lparr>loading := True\<rparr>, False)"
    by blast
  ultimately show ?thesis by blast
qed

subsection \<open>Paste and the file picker\<close>

lemma pasteItems_Cons:
  "pasteItems cfg (it # its) acc = pasteItems cfg its (pasteItem cfg it acc)"
  by (simp add: pasteItems_def)

lemma pasteItem_frame:
  "fst (pasteItem cfg it (s, p)) = s\<lparr>fileDataRef := fileDataRef (fst (pasteItem cfg it (s, p)))\<rparr>"
  by (simp add: pasteItem_def split: option.splits prod.splits)

lemma pasteItem_prevented:
  "snd (pasteItem cfg it (s, p)) \<longleftrightarrow>
     p \<or> (allowImageAttachment s \<noteq> ''no'' \<and> indexOf (item_type it) (utf16 ''image'') = Some 0)"
  by (auto simp: pasteItem_def split: option.splits prod.splits)

lemma pasteItem_length:
  "length (fileDataRef (fst (pasteItem cfg it (s, p)))) =
     length (fileDataRef s) +
     (if allowImageAttachment s \<noteq> ''no'' \<and> indexOf (item_type it) (utf16 ''image'') = Some 0 \<and>
         (\<exists>f d. getAsFile it = Some f \<and> dataURL f = Some d) then 1 else 0)"
  by (auto simp: pasteItem_def split: option.splits prod.splits)

lemma pasteItems_frame:
  "fst (pasteItems cfg its (s, p)) =
     s\<lparr>fileDataRef := fileDataRef (fst (pasteItems cfg its (s, p)))\<rparr>"
proof (induction its arbitrary: s p)
  case Nil
  then show ?case by (simp add: pasteItems_def)
next
  case (Cons it its)
  obtain s1 p1 where sp: "pasteItem cfg it (s, p) = (s1, p1)" by (cases "pasteItem cfg it (s, p)")
  from pasteItem_frame [of cfg it s p] sp have s1: "s1 = s\<lparr>fileDataRef := fileDataRef s1\<rparr>"
    by simp
  from Cons.IH [of s1 p1]
  have "fst (pasteItems cfg its (s1, p1)) =
      s1\<lparr>fileDataRef := fileDataRef (fst (pasteItems cfg its (s1, p1)))\<rparr>" .
  also have "\<dots> = s\<lparr>fileDataRef := fileDataRef (fst (pasteItems cfg its (s1, p1)))\<rparr>"
    by (subst s1) simp
  finally show ?case by (simp add: pasteItems_Cons sp)
qed

lemma pasteItems_prevented:
  "snd (pasteItems cfg its (s, p)) \<longleftrightarrow>
     p \<or> (allowImageAttachment s \<noteq> ''no'' \<and>
          (\<exists>it \<in> set its. indexOf (item_type it) (utf16 ''image'') = Some 0))"
proof (induction its arbitrary: s p)
  case Nil
  then show ?case by (simp add: pasteItems_def)
next
  case (Cons it its)
  obtain s1 p1 where sp: "pasteItem cfg it (s, p) = (s1, p1)" by (cases "pasteItem cfg it (s, p)")
  from pasteItem_frame [of cfg it s p] sp have "s1 = s\<lparr>fileDataRef := fileDataRef s1\<rparr>"
    by simp
  then have allow: "allowImageAttachment s1 = allowImageAttachment s"
    by (metis composer.select_convs(9) composer.surjective composer.update_convs(5))
  from pasteItem_prevented [of cfg it s p] sp
  have p1: "p1 \<longleftrightarrow> p \<or> (allowImageAttachment s \<noteq> ''no'' \<and>
      indexOf (item_type it) (utf16 ''image'') = Some 0)" by simp
  from Cons.IH [of s1 p1] allow p1 show ?case
    by (auto simp: pasteItems_Cons sp)
qed

lemma pasteItems_length:
  "length (fileDataRef (fst (pasteItems cfg its (s, p)))) =
     length (fileDataRef s) +
     length (filter (\<lambda>it. allowImageAttachment s \<noteq> ''no'' \<and>
                           indexOf (item_type it) (utf16 ''image'') = Some 0 \<and>
                           (\<exists>f d. getAsFile it = Some f \<and> dataURL f = Some d)) its)"
proof (induction its arbitrary: s p)
  case Nil
  then show ?case by (simp add: pasteItems_def)
next
  case (Cons it its)
  obtain s1 p1 where sp: "pasteItem cfg it (s, p) = (s1, p1)" by (cases "pasteItem cfg it (s, p)")
  from pasteItem_frame [of cfg it s p] sp have "s1 = s\<lparr>fileDataRef := fileDataRef s1\<rparr>"
    by simp
  then have allow: "allowImageAttachment s1 = allowImageAttachment s"
    by (metis composer.select_convs(9) composer.surjective composer.update_convs(5))
  from pasteItem_length [of cfg it s p] sp
  have l1: "length (fileDataRef s1) =
     length (fileDataRef s) +
     (if allowImageAttachment s \<noteq> ''no'' \<and> indexOf (item_type it) (utf16 ''image'') = Some 0 \<and>
         (\<exists>f d. getAsFile it = Some f \<and> dataURL f = Some d) then 1 else 0)" by simp
  from Cons.IH [of s1 p1] allow l1 show ?case
    by (simp add: pasteItems_Cons sp)
qed


lemma pasteItems_text_state:
  "draftText (fst (pasteItems cfg its (s, p))) = draftText s"
  "textValue (fst (pasteItems cfg its (s, p))) = textValue s"
  "textAreaRef (fst (pasteItems cfg its (s, p))) = textAreaRef s"
  "selectionRef (fst (pasteItems cfg its (s, p))) = selectionRef s"
  "timeouts (fst (pasteItems cfg its (s, p))) = timeouts s"
  by (subst pasteItems_frame, simp)+

text \<open>
  What the handler does with the text of a paste event, whatever its items. A text without
  markers that is oversized replaces the selection, wrapped, and the default action is
  prevented; any other text is left to the default action, which by then is prevented
  exactly when the event carries an image item while \<open>allowImageAttachment\<close> is not \<open>no\<close>.
\<close>

lemma handlePaste_text_classification:
  fixes cfg :: config and event :: clipboardEvent and s :: composer
  assumes "clipboardData event = Some cd"
    and "\<not> includes_str (text_plain cd) (snippet_begin cfg)"
    and "\<not> includes_str (text_plain cd) (snippet_end cfg)"
    and "textAreaRef s = Some ta"
    and "selectionStart ta \<le> selectionEnd ta"
    and "selectionEnd ta \<le> length (ta_value ta)"
  defines "oversized \<equiv>
      MAX_ROWS cfg \<le> count_list (text_plain cd) newline \<or>
      80 * MAX_ROWS cfg < length (text_plain cd)"
    and "imageAccepted \<equiv>
      allowImageAttachment s \<noteq> ''no'' \<and>
      (\<exists>it \<in> set (items cd). indexOf (item_type it) (utf16 ''image'') = Some 0)"
    and "inserted \<equiv>
      take (selectionStart ta) (ta_value ta) @
      (snippet_begin cfg @ [newline] @ text_plain cd @ [newline] @ snippet_end cfg @ [newline]) @
      drop (selectionEnd ta) (ta_value ta)"
  shows "\<exists>s'. handlePaste cfg event s = Inr (s', oversized \<or> imageAccepted) \<and>
           (if oversized
            then draftText s' = inserted \<and> textValue s' = inserted \<and>
                 map_option ta_value (textAreaRef s') = Some (normalizeNewlines inserted)
            else draftText s' = draftText s \<and> textValue s' = textValue s \<and>
                 textAreaRef s' = textAreaRef s)"
proof -
  obtain s1 p1 where sp: "pasteItems cfg (items cd) (s, False) = (s1, p1)"
    by (cases "pasteItems cfg (items cd) (s, False)")
  from pasteItems_prevented [of cfg "items cd" s False] sp
  have prev: "p1 = imageAccepted" by (simp add: imageAccepted_def)
  from pasteItems_text_state [of cfg "items cd" s False] sp
  have st: "draftText s1 = draftText s" "textValue s1 = textValue s"
    "textAreaRef s1 = textAreaRef s" by simp_all
  from st(3) assms(4) have ta: "textAreaRef s1 = Some ta" by simp
  show ?thesis
  proof (cases oversized)
    case True
    then have "handlePaste cfg event s =
        Inr (insertTextAtCursorPosition (modifiedText cfg (text_plain cd)) s1, True)"
      using assms(1,2,3)
      by (simp add: handlePaste_def sp oversized_def Let_def)
    moreover note insertTextAtCursorPosition_fields(1,2,3)
      [OF ta assms(5,6), of "modifiedText cfg (text_plain cd)"]
    ultimately show ?thesis
      using True by (simp add: inserted_def modifiedText_def)
  next
    case False
    then have "handlePaste cfg event s = Inr (s1, imageAccepted)"
      using assms(1,2,3) prev
      by (simp add: handlePaste_def sp oversized_def Let_def)
    then show ?thesis
      using False st by simp
  qed
qed

lemma handlePaste_marker_text:
  fixes cfg :: config and event :: clipboardEvent and s :: composer
  assumes "clipboardData event = Some cd"
    and "includes_str (text_plain cd) (snippet_begin cfg) \<or>
         includes_str (text_plain cd) (snippet_end cfg)"
  defines "imageAccepted \<equiv>
      allowImageAttachment s \<noteq> ''no'' \<and>
      (\<exists>it \<in> set (items cd). indexOf (item_type it) (utf16 ''image'') = Some 0)"
  shows "\<exists>s'. handlePaste cfg event s = Inr (s', imageAccepted) \<and>
           draftText s' = draftText s \<and> textValue s' = textValue s \<and>
           textAreaRef s' = textAreaRef s \<and> selectionRef s' = selectionRef s \<and>
           timeouts s' = timeouts s"
proof -
  obtain s1 p1 where sp: "pasteItems cfg (items cd) (s, False) = (s1, p1)"
    by (cases "pasteItems cfg (items cd) (s, False)")
  from pasteItems_prevented [of cfg "items cd" s False] sp
  have prev: "p1 = imageAccepted" by (simp add: imageAccepted_def)
  from pasteItems_text_state [of cfg "items cd" s False] sp
  have st: "draftText s1 = draftText s" "textValue s1 = textValue s"
    "textAreaRef s1 = textAreaRef s" "selectionRef s1 = selectionRef s"
    "timeouts s1 = timeouts s" by simp_all
  have "handlePaste cfg event s = Inr (s1, imageAccepted)"
    using assms(1,2) prev
    by (auto simp: handlePaste_def sp Let_def)
  then show ?thesis using st by simp
qed


text \<open>
  Claim C5 does not hold of the code when the event also carries an image. The text
  \<open>hi\<close> has no marker and is not oversized, so the handler leaves it to the native
  paste; but with image attachments allowed the loop over the items has prevented the
  default action of the whole event, and the text reaches the buffer by neither way. The
  same event with \<open>allowImageAttachment\<close> at \<open>no\<close>, and the same text without the image,
  leave the default action alone; an oversized text pasted with the image is inserted.
\<close>

theorem native_paste_suppressed_by_image:
  "\<not> includes_str (utf16 ''hi'') (snippet_begin example_config) \<and>
   \<not> includes_str (utf16 ''hi'') (snippet_end example_config) \<and>
   count_list (utf16 ''hi'') newline < MAX_ROWS example_config \<and>
   length (utf16 ''hi'') \<le> 80 * MAX_ROWS example_config \<and>
   handlePaste example_config image_and_text_paste example_composer =
     Inr (example_composer\<lparr>fileDataRef := [example_image, pasted_image]\<rparr>, True) \<and>
   handlePaste example_config image_and_text_paste
     (example_composer\<lparr>allowImageAttachment := ''no''\<rparr>) =
     Inr (example_composer\<lparr>allowImageAttachment := ''no''\<rparr>, False) \<and>
   handlePaste example_config \<lparr>clipboardData = Some short_paste\<rparr> example_composer =
     Inr (example_composer, False) \<and>
   (\<exists>s'. handlePaste example_config image_and_long_paste example_composer = Inr (s', True) \<and>
          draftText s' =
            utf16 ''h<BEGIN>'' @ [newline] @ three_lines @ [newline] @ utf16 ''<END>'' @
            [newline] @ utf16 ''lo'')"
  by (simp add: example_config_def image_and_text_paste_def image_and_long_paste_def
      short_paste_def three_lines_def example_composer_def
      example_item_def example_png_def pasted_image_def utf16_def newline_def
      includes_str_def handlePaste_def pasteItems_def pasteItem_def modifiedText_def
      insertTextAtCursorPosition_def setTextAreaValue_def setTextValue_def Let_def
      substring_def substring_from_def)

text \<open>
  Claim C6 does not hold of the code when the event also carries an image. The text is
  the begin marker, so the handler returns early and leaves it to the native paste; but
  with image attachments allowed the loop over the items has prevented the default action
  of the whole event, and the text is not pasted. The same event with
  \<open>allowImageAttachment\<close> at \<open>no\<close>, and a marker text without an image, leave the
  default action alone.
\<close>

theorem marker_paste_suppressed_by_image:
  "includes_str (utf16 ''<BEGIN>'') (snippet_begin example_config) \<and>
   handlePaste example_config image_and_marker_paste example_composer =
     Inr (example_composer\<lparr>fileDataRef := [example_image, pasted_image]\<rparr>, True) \<and>
   handlePaste example_config image_and_marker_paste
     (example_composer\<lparr>allowImageAttachment := ''no''\<rparr>) =
     Inr (example_composer\<lparr>allowImageAttachment := ''no''\<rparr>, False) \<and>
   handlePaste example_config \<lparr>clipboardData = Some marker_paste\<rparr> example_composer =
     Inr (example_composer, False)"
  by (simp add: example_config_def image_and_marker_paste_def marker_paste_def
      example_composer_def example_item_def example_png_def pasted_image_def utf16_def
      newline_def includes_str_def handlePaste_def pasteItems_def pasteItem_def)

lemma pickFile_image:
  assumes "startsWith (file_type f) (utf16 ''image/'')"
  shows "length (fileDataRef (pickFile cfg seen f s)) =
           (if MAX_IMAGE_ATTACHMENTS_PER_MESSAGE cfg \<le> length seen
            then length (fileDataRef s) else Suc (length (fileDataRef s)))"
  using assms by (simp add: pickFile_def split: prod.splits)

lemma pick_images_length:
  assumes "startsWith (file_type f) (utf16 ''image/'')"
  shows "length (fileDataRef (foldl (\<lambda>s' f. pickFile cfg seen f s') s (replicate n f))) =
           (if MAX_IMAGE_ATTACHMENTS_PER_MESSAGE cfg \<le> length seen
            then length (fileDataRef s) else length (fileDataRef s) + n)"
proof (induction n arbitrary: s)
  case 0
  then show ?case by simp
next
  case (Suc n)
  show ?case
    using Suc.IH [of "pickFile cfg seen f s"] pickFile_image [OF assms, of cfg seen s]
    by simp
qed

lemma example_item_accepted:
  "indexOf (item_type example_item) (utf16 ''image'') = Some 0 \<and>
   (\<exists>f d. getAsFile example_item = Some f \<and> dataURL f = Some d)"
  by (simp add: example_item_def example_png_def utf16_def)

lemma example_png_is_image: "startsWith (file_type example_png) (utf16 ''image/'')"
  by (simp add: example_png_def utf16_def startsWith_def)

text \<open>
  Claim C1 does not hold of the code. The paste path never compares the store with
  \<open>MAX_IMAGE_ATTACHMENTS_PER_MESSAGE\<close>: pasting that many images plus \<open>k + 1\<close> more
  into an empty store, with attachments allowed, stores all of them. The picker compares
  the array it saw when the listener was created, not the array it appends to: picking as
  many images at once with an empty store stores all of them too, unless the maximum is 0.
\<close>

theorem attachment_cap_not_enforced:
  "(\<exists>s'. handlePaste cfg
            \<lparr>clipboardData = Some
               \<lparr>items = replicate (MAX_IMAGE_ATTACHMENTS_PER_MESSAGE cfg + Suc k) example_item,
                text_plain = []\<rparr>\<rparr>
            (s\<lparr>fileDataRef := [], allowImageAttachment := ''yes''\<rparr>) = Inr (s', True) \<and>
          length (fileDataRef s') = MAX_IMAGE_ATTACHMENTS_PER_MESSAGE cfg + Suc k) \<and>
   length (fileDataRef
     (handleAttachment_onchange cfg []
        (Some (replicate (MAX_IMAGE_ATTACHMENTS_PER_MESSAGE cfg + Suc k) example_png))
        (s\<lparr>fileDataRef := []\<rparr>))) =
     (if MAX_IMAGE_ATTACHMENTS_PER_MESSAGE cfg = 0 then 0
      else MAX_IMAGE_ATTACHMENTS_PER_MESSAGE cfg + Suc k)"
proof
  let ?n = "MAX_IMAGE_ATTACHMENTS_PER_MESSAGE cfg + Suc k"
  let ?s0 = "s\<lparr>fileDataRef := [], allowImageAttachment := ''yes''\<rparr>"
  define its where "its = replicate ?n example_item"
  have its: "set its = {example_item}" "length its = ?n"
    unfolding its_def by (simp_all only: set_replicate_conv_if length_replicate) simp_all
  obtain s1 p1 where sp: "pasteItems cfg its (?s0, False) = (s1, p1)"
    by (cases "pasteItems cfg its (?s0, False)")
  from pasteItems_prevented [of cfg its ?s0 False] sp
  have p1: "p1" by (simp add: example_item_accepted its)
  have "filter (\<lambda>it. allowImageAttachment ?s0 \<noteq> ''no'' \<and>
                    indexOf (item_type it) (utf16 ''image'') = Some 0 \<and>
                    (\<exists>f d. getAsFile it = Some f \<and> dataURL f = Some d)) its = its"
    by (rule filter_True) (use example_item_accepted its in auto)
  with pasteItems_length [of cfg its ?s0 False] sp
  have len: "length (fileDataRef s1) = ?n" by (simp add: its)
  have "handlePaste cfg \<lparr>clipboardData = Some \<lparr>items = its, text_plain = []\<rparr>\<rparr> ?s0 =
          Inr (s1, True) \<or>
        handlePaste cfg \<lparr>clipboardData = Some \<lparr>items = its, text_plain = []\<rparr>\<rparr> ?s0 =
          Inr (insertTextAtCursorPosition (modifiedText cfg []) s1, True)"
    using p1 by (simp add: handlePaste_def sp Let_def)
  with len have "\<exists>s'. handlePaste cfg
            \<lparr>clipboardData = Some \<lparr>items = its, text_plain = []\<rparr>\<rparr> ?s0 =
            Inr (s', True) \<and> length (fileDataRef s') = ?n"
    by (auto simp: insertTextAtCursorPosition_fileDataRef)
  then show "\<exists>s'. handlePaste cfg
            \<lparr>clipboardData = Some \<lparr>items = replicate ?n example_item, text_plain = []\<rparr>\<rparr> ?s0 =
            Inr (s', True) \<and> length (fileDataRef s') = ?n"
    by (simp only: its_def)
next
  show "length (fileDataRef
     (handleAttachment_onchange cfg []
        (Some (replicate (MAX_IMAGE_ATTACHMENTS_PER_MESSAGE cfg + Suc k) example_png))
        (s\<lparr>fileDataRef := []\<rparr>))) =
     (if MAX_IMAGE_ATTACHMENTS_PER_MESSAGE cfg = 0 then 0
      else MAX_IMAGE_ATTACHMENTS_PER_MESSAGE cfg + Suc k)"
    by (simp only: handleAttachment_onchange_def option.case
        pick_images_length [OF example_png_is_image]) simp
qed

end
